theory Spec2Isabelle
  imports Main "HOL-Library.AList" "HOL-Library.Char_ord" "HOL-Library.List_Lexorder"
    "HOL-Library.Word"
begin

section \<open>Command nodes\<close>

text \<open>
  A Go \<^verbatim>\<open>*Cmd\<close> is an address into a store of nodes; \<^verbatim>\<open>nil\<close> is \<open>None\<close> of
  \<open>ptr option\<close>. Nodes refer to their children by address, so sharing and cycles of the
  Go object graph are representable. A Go string is its byte sequence, an Isabelle
  \<open>string\<close>; \<^verbatim>\<open><\<close> on Go strings is the bytewise lexicographic order, the order of
  \<open>char list\<close> under Char_ord and List_Lexorder.

  A Go \<^verbatim>\<open>map[string]*Cmd\<close> is \<open>None\<close> when nil and otherwise an association list with
  one entry per key. The order of the list stands for the order in which a
  \<^verbatim>\<open>range\<close> loop visits the map, which Go leaves unspecified: a statement proved for
  every list holds for every visiting order.
\<close>

type_synonym ptr = nat

type_synonym 'v gomap = "(string \<times> 'v) list option"

typedecl Context

record Cmd =
  Name :: string
  Aliases :: "string list"
  Func :: "(Context \<Rightarrow> Context) option"
  Help :: string
  LongHelp :: string
  Completer :: "(string list \<Rightarrow> string list) option"
  CompleterWithPrefix :: "(string \<Rightarrow> string list \<Rightarrow> string list) option"
  children :: "ptr gomap"
  optionalChildren :: "ptr gomap"

type_synonym heap = "ptr \<Rightarrow> Cmd"

text \<open>Reading a map: a nil map reads as the empty map.\<close>

fun entries :: "'v gomap \<Rightarrow> (string \<times> 'v) list" where
  "entries None = []"
| "entries (Some m) = m"

text \<open>\<^verbatim>\<open>m[k]\<close> with the comma-ok form, and \<^verbatim>\<open>len(m)\<close>.\<close>

definition lookup :: "'v gomap \<Rightarrow> string \<Rightarrow> 'v option" where
  "lookup m k = map_of (entries m) k"


text \<open>\<^verbatim>\<open>make(map[string]*Cmd)\<close> when the map is nil, then \<^verbatim>\<open>m[k] = v\<close>.\<close>

definition store :: "string \<Rightarrow> 'v \<Rightarrow> 'v gomap \<Rightarrow> 'v gomap" where
  "store k v m = Some (AList.update k v (entries m))"

text \<open>\<^verbatim>\<open>delete(m, k)\<close>: no effect on a nil map, which stays nil.\<close>

definition delete :: "string \<Rightarrow> 'v gomap \<Rightarrow> 'v gomap" where
  "delete k m = map_option (AList.delete k) m"

subsection \<open>Tree management\<close>

text \<open>
  The receivers and arguments of the methods below are allocated nodes; the methods write
  the receiver's node in the store.
\<close>

definition AddCmd :: "ptr \<Rightarrow> ptr \<Rightarrow> heap \<Rightarrow> heap" where
  "AddCmd c cmd h = h(c := (h c)\<lparr>children := store (Name (h cmd)) cmd (children (h c))\<rparr>)"

definition AddOptionalCmd :: "ptr \<Rightarrow> ptr \<Rightarrow> heap \<Rightarrow> heap" where
  "AddOptionalCmd c cmd h =
     h(c := (h c)\<lparr>optionalChildren := store (Name (h cmd)) cmd (optionalChildren (h c))\<rparr>)"

definition DeleteCmd :: "ptr \<Rightarrow> string \<Rightarrow> heap \<Rightarrow> heap" where
  "DeleteCmd c name h = h(c := (h c)\<lparr>children := delete name (children (h c))\<rparr>)"

subsection \<open>Resolution\<close>

text \<open>The alias search: the first node visited one of whose aliases is the name.\<close>

fun hasAlias :: "string \<Rightarrow> string list \<Rightarrow> bool" where
  "hasAlias name [] = False"
| "hasAlias name (alias # rest) = (if alias = name then True else hasAlias name rest)"

fun findAlias :: "heap \<Rightarrow> (string \<times> ptr) list \<Rightarrow> string \<Rightarrow> ptr option" where
  "findAlias h [] name = None"
| "findAlias h ((k, cmd) # rest) name =
     (if hasAlias name (Aliases (h cmd)) then Some cmd else findAlias h rest name)"

definition findChildCmd :: "heap \<Rightarrow> Cmd \<Rightarrow> string \<Rightarrow> ptr option" where
  "findChildCmd h c name =
     (case lookup (children c) name of
        Some cmd \<Rightarrow> Some cmd
      | None \<Rightarrow> findAlias h (entries (children c)) name)"

definition findOptionalChildCmd :: "heap \<Rightarrow> Cmd \<Rightarrow> string \<Rightarrow> ptr option" where
  "findOptionalChildCmd h c name =
     (case lookup (optionalChildren c) name of
        Some cmd \<Rightarrow> Some cmd
      | None \<Rightarrow> findAlias h (entries (optionalChildren c)) name)"

text \<open>
  The first loop of FindCmd over the words still to scan, carrying the current node
  \<open>c\<close>, the matched command \<open>cmd\<close> and \<open>remArgs\<close>.
\<close>

fun findLoop :: "heap \<Rightarrow> Cmd \<Rightarrow> ptr option \<Rightarrow> string list \<Rightarrow> string list
    \<Rightarrow> Cmd \<times> ptr option \<times> string list" where
  "findLoop h c cmd remArgs [] = (c, cmd, remArgs)"
| "findLoop h c cmd remArgs (arg # rest) =
     (case findChildCmd h c arg of
        Some cmd1 \<Rightarrow> findLoop h (h cmd1) (Some cmd1) rest rest
      | None \<Rightarrow> findLoop h c cmd remArgs rest)"

text \<open>
  The \<^verbatim>\<open>map[*Cmd]string\<close> of captured values, keyed by address, as an association
  list; closing an open optional command writes its pending value.
\<close>

type_synonym optmap = "(ptr \<times> string) list"

fun closeOpt :: "ptr option \<Rightarrow> string \<Rightarrow> optmap \<Rightarrow> optmap" where
  "closeOpt None optArgs m = m"
| "closeOpt (Some optCmd) optArgs m = AList.update optCmd optArgs m"

text \<open>The second loop of FindCmd, carrying \<open>optCmd\<close>, \<open>optCmdMap\<close> and \<open>optArgs\<close>.\<close>

fun optLoop :: "heap \<Rightarrow> Cmd \<Rightarrow> ptr option \<Rightarrow> optmap \<Rightarrow> string \<Rightarrow> string list
    \<Rightarrow> ptr option \<times> optmap \<times> string" where
  "optLoop h c optCmd m optArgs [] = (optCmd, m, optArgs)"
| "optLoop h c optCmd m optArgs (arg # rest) =
     (case findOptionalChildCmd h c arg of
        Some cmd1 \<Rightarrow> optLoop h c (Some cmd1) (closeOpt optCmd optArgs m) [] rest
      | None \<Rightarrow> optLoop h c optCmd m arg rest)"

text \<open>The optional walk: the second loop and the closing of the last open command.\<close>

definition optionalWalk :: "heap \<Rightarrow> Cmd \<Rightarrow> string list \<Rightarrow> optmap" where
  "optionalWalk h c remArgs =
     (case optLoop h c None [] [] remArgs of
        (optCmd, optCmdMap, optArgs) \<Rightarrow> closeOpt optCmd optArgs optCmdMap)"

definition FindCmd :: "heap \<Rightarrow> Cmd \<Rightarrow> string list \<Rightarrow> ptr option \<times> optmap \<times> string list" where
  "FindCmd h c args =
     (case findLoop h c None [] args of
        (c', cmd, remArgs) \<Rightarrow> (cmd, optionalWalk h c' remArgs, remArgs))"


subsection \<open>Validation of a captured value\<close>

text \<open>\<^verbatim>\<open>errors.New\<close> with its message; a nil error is \<open>None\<close>.\<close>

datatype error = New string

text \<open>The loop of IsValid over the completer's values.\<close>

fun validLoop :: "string \<Rightarrow> string list \<Rightarrow> bool \<Rightarrow> bool" where
  "validLoop argValue [] valid = valid"
| "validLoop argValue (completedValue # rest) valid =
     validLoop argValue rest (if argValue = completedValue then True else valid)"

definition IsValid :: "Cmd \<Rightarrow> string \<Rightarrow> bool \<times> error option" where
  "IsValid c argValue =
     (case Completer c of
        None \<Rightarrow> (False, Some (New ''Completer must be specified for cmd''))
      | Some f \<Rightarrow> (validLoop argValue (f []) False, None))"

subsection \<open>Listing and help\<close>

text \<open>
  \<^verbatim>\<open>sort.Sort(cmdSorter(cmds))\<close> orders the collected nodes by their current names. The
  Go sort is not stable; the model sorts by insertion, which is the only outcome when the
  names differ and one of the allowed outcomes when two nodes carry the same name.
\<close>

definition Children :: "heap \<Rightarrow> Cmd \<Rightarrow> ptr list" where
  "Children h c = sort_key (\<lambda>p. Name (h p)) (map snd (entries (children c)))"

definition OptionalChildren :: "heap \<Rightarrow> Cmd \<Rightarrow> ptr list" where
  "OptionalChildren h c = sort_key (\<lambda>p. Name (h p)) (map snd (entries (optionalChildren c)))"



definition newline :: char where
  "newline = CHR 0x0A"


text \<open>\<^verbatim>\<open>fmt.Fprintln\<close> of string operands: separated by spaces, ended by a newline.\<close>

fun operands :: "string list \<Rightarrow> string" where
  "operands [] = []"
| "operands [x] = x"
| "operands (x # y # rest) = x @ '' '' @ operands (y # rest)"

definition Fprintln :: "string \<Rightarrow> string list \<Rightarrow> string" where
  "Fprintln b s = b @ operands s @ [newline]"

text \<open>The closure \<^verbatim>\<open>p\<close> of HelpText, on the buffer \<open>b\<close>.\<close>

definition p :: "string \<Rightarrow> string list \<Rightarrow> string" where
  "p b s = (let b1 = Fprintln b [] in if length s > 0 then Fprintln b1 s else b1)"



section \<open>Completion\<close>

datatype panic = NilDereference | IndexOutOfRange

text \<open>
  The loop of getWords over the captured optional commands either returns from getWords
  or falls through to the rest of the function with the names gathered in \<open>s\<close>. The call
  site negates the boolean that IsValid returns.
\<close>

datatype exit = Return "string list" | Fallthrough "string list"

fun rangeOpts :: "heap \<Rightarrow> string \<Rightarrow> ptr option \<Rightarrow> optmap \<Rightarrow> string list \<Rightarrow> panic + exit" where
  "rangeOpts h prefix cmd [] s = Inr (Fallthrough s)"
| "rangeOpts h prefix cmd ((optCmd, value) # rest) s =
     (if \<not> fst (IsValid (h optCmd) value) then
        (case CompleterWithPrefix (h optCmd) of
           Some f \<Rightarrow> Inr (Return (f prefix [value]))
         | None \<Rightarrow>
             (case Completer (h optCmd) of
                Some f \<Rightarrow> Inr (Return (f [value]))
              | None \<Rightarrow>
                  (case entries (children (h optCmd)) of
                     (k, child) # others \<Rightarrow> Inr (Return (s @ [k]))
                   | [] \<Rightarrow>
                       (case cmd of
                          None \<Rightarrow> Inl NilDereference
                        | Some m \<Rightarrow>
                            rangeOpts h prefix cmd rest
                              (s @ map fst (entries (optionalChildren (h m))))))))
      else rangeOpts h prefix cmd rest s)"

record iCompleter =
  cmd :: "ptr option"
  disabled :: "(unit \<Rightarrow> bool) option"

definition getWords :: "heap \<Rightarrow> iCompleter \<Rightarrow> string \<Rightarrow> string list \<Rightarrow> panic + string list" where
  "getWords h ic prefix w =
     (case iCompleter.cmd ic of
        None \<Rightarrow> Inl NilDereference
      | Some root \<Rightarrow>
          (case FindCmd h (h root) w of
             (found, optCmdValueMap, args) \<Rightarrow>
               (case rangeOpts h prefix found optCmdValueMap [] of
                  Inl e \<Rightarrow> Inl e
                | Inr (Return r) \<Rightarrow> Inr r
                | Inr (Fallthrough s) \<Rightarrow>
                    (case (case found of None \<Rightarrow> (root, w) | Some m \<Rightarrow> (m, args)) of
                       (eff, args') \<Rightarrow>
                         (case CompleterWithPrefix (h eff) of
                            Some f \<Rightarrow> Inr (f prefix args')
                          | None \<Rightarrow>
                              (case Completer (h eff) of
                                 Some f \<Rightarrow> Inr (f args')
                               | None \<Rightarrow>
                                   Inr (s @ map fst (entries (children (h eff)))
                                          @ map fst (entries (optionalChildren (h eff))))))))))"

text \<open>
  A rune is an int32. The tokenizer go-shlex and the Go library functions that Do calls
  are not part of the repository; they are the fields of \<open>lib\<close>: \<open>shlex_Split\<close> is \<open>None\<close>
  when the tokenizer reports an error, \<open>string_of_runes\<close> is \<^verbatim>\<open>string(line)\<close> and
  \<open>runes_of_string\<close> is \<^verbatim>\<open>[]rune(s)\<close>.
\<close>

type_synonym rune = "32 word"

record lib =
  shlex_Split :: "string \<Rightarrow> string list option"
  strings_Fields :: "string \<Rightarrow> string list"
  string_of_runes :: "rune list \<Rightarrow> string"
  runes_of_string :: "string \<Rightarrow> rune list"

definition HasPrefix :: "string \<Rightarrow> string \<Rightarrow> bool" where
  "HasPrefix s prefix = (length s \<ge> length prefix \<and> take (length prefix) s = prefix)"

definition TrimPrefix :: "string \<Rightarrow> string \<Rightarrow> string" where
  "TrimPrefix s prefix = (if HasPrefix s prefix then drop (length prefix) s else s)"

text \<open>
  The test \<^verbatim>\<open>len(words) > 0 && pos > 0 && line[pos-1] != ' '\<close>; the index panics past
  the end of the line.
\<close>

definition inProgress :: "string list \<Rightarrow> rune list \<Rightarrow> int \<Rightarrow> panic + bool" where
  "inProgress words line pos =
     (if length words > 0 \<and> pos > 0 then
        (if nat (pos - 1) < length line then Inr (line ! nat (pos - 1) \<noteq> 32)
         else Inl IndexOutOfRange)
      else Inr False)"

text \<open>The loop of Do over the candidate words.\<close>

fun suggestLoop :: "lib \<Rightarrow> string \<Rightarrow> string list \<Rightarrow> rune list list \<Rightarrow> rune list list" where
  "suggestLoop l prefix [] suggestions = suggestions"
| "suggestLoop l prefix (w # ws) suggestions =
     suggestLoop l prefix ws
       (if HasPrefix w prefix then suggestions @ [runes_of_string l (TrimPrefix w prefix)]
        else suggestions)"

definition collapse :: "lib \<Rightarrow> string \<Rightarrow> rune list list \<Rightarrow> rune list list" where
  "collapse l prefix suggestions =
     (if length suggestions = 1 \<and> prefix \<noteq> [] \<and> string_of_runes l (suggestions ! 0) = []
      then [runes_of_string l '' '']
      else suggestions)"

definition Do :: "lib \<Rightarrow> heap \<Rightarrow> iCompleter \<Rightarrow> rune list \<Rightarrow> int \<Rightarrow> panic + rune list list \<times> int" where
  "Do l h ic line pos =
     (if (case disabled ic of Some d \<Rightarrow> d () | None \<Rightarrow> False) then Inr ([], int (length line))
      else
        (let words = (case shlex_Split l (string_of_runes l line) of
                        Some w \<Rightarrow> w
                      | None \<Rightarrow> strings_Fields l (string_of_runes l line))
         in case inProgress words line pos of
              Inl e \<Rightarrow> Inl e
            | Inr typing \<Rightarrow>
                (let prefix = (if typing then last words else []);
                     given = (if typing then butlast words else words)
                 in case getWords h ic prefix given of
                      Inl e \<Rightarrow> Inl e
                    | Inr cWords \<Rightarrow>
                        Inr (collapse l prefix (suggestLoop l prefix cWords []),
                             int (length prefix)))))"

section \<open>Sequences of tree operations\<close>

datatype operation = Add ptr | AddOptional ptr | Delete string

fun perform :: "ptr \<Rightarrow> operation \<Rightarrow> heap \<Rightarrow> heap" where
  "perform c (Add child) h = AddCmd c child h"
| "perform c (AddOptional child) h = AddOptionalCmd c child h"
| "perform c (Delete name) h = DeleteCmd c name h"

definition performAll :: "ptr \<Rightarrow> operation list \<Rightarrow> heap \<Rightarrow> heap" where
  "performAll c ops h = fold (perform c) ops h"

text \<open>
  A child map is keyed by name when its keys are distinct and every key is the current
  name of the node it leads to.
\<close>

definition keyed :: "heap \<Rightarrow> ptr gomap \<Rightarrow> bool" where
  "keyed h m = (distinct (map fst (entries m)) \<and> list_all (\<lambda>(k, q). Name (h q) = k) (entries m))"

section \<open>The help text, as the specification lays it out\<close>



text \<open>
  What the statements about Do need of the conversions between strings and rune slices:
  only the empty string converts to a rune slice that reads back as the empty string.
\<close>

definition convertible :: "lib \<Rightarrow> bool" where
  "convertible l = (\<forall>s. (string_of_runes l (runes_of_string l s) = []) = (s = []))"

section \<open>Example trees\<close>

text \<open>The literal \<^verbatim>\<open>&Cmd{Name: n}\<close>, every other field zero.\<close>

definition newCmd :: "string \<Rightarrow> Cmd" where
  "newCmd n = \<lparr>Name = n, Aliases = [], Func = None, Help = [], LongHelp = [],
     Completer = None, CompleterWithPrefix = None, children = None, optionalChildren = None\<rparr>"

text \<open>Root 0 with the command "user" (alias "u"), which has the option "--verbose".\<close>

definition userTree :: heap where
  "userTree =
     AddCmd 0 1 (AddOptionalCmd 1 2
       ((\<lambda>a. newCmd [])(1 := (newCmd ''user'')\<lparr>Aliases := [''u'']\<rparr>, 2 := newCmd ''--verbose'')))"

text \<open>Root 0 with the single option "--v".\<close>

definition optionTree :: heap where
  "optionTree = AddOptionalCmd 0 1 ((\<lambda>a. newCmd [])(1 := newCmd ''--v''))"

text \<open>Root 0 with the command "a" (alias "b") and the command "b".\<close>

definition aliasTree :: heap where
  "aliasTree =
     AddCmd 0 2 (AddCmd 0 1
       ((\<lambda>a. newCmd [])(1 := (newCmd ''a'')\<lparr>Aliases := [''b'']\<rparr>, 2 := newCmd ''b'')))"

text \<open>
  Root 0 with the command "user", whose option "--role" has the required children
  "admin" and "guest" and no completer; \<open>roleTree\<close> visits "admin" first, \<open>roleTree'\<close>
  visits "guest" first.
\<close>

definition roleNodes :: heap where
  "roleNodes = (\<lambda>a. newCmd [])(1 := newCmd ''user'', 2 := newCmd ''--role'',
     3 := newCmd ''admin'', 4 := newCmd ''guest'')"

definition roleTree :: heap where
  "roleTree = AddCmd 0 1 (AddOptionalCmd 1 2 (AddCmd 2 4 (AddCmd 2 3 roleNodes)))"

definition roleTree' :: heap where
  "roleTree' = AddCmd 0 1 (AddOptionalCmd 1 2 (AddCmd 2 3 (AddCmd 2 4 roleNodes)))"

text \<open>Root 0 with the commands "status", "stop" and "start".\<close>

definition serviceTree :: heap where
  "serviceTree =
     AddCmd 0 3 (AddCmd 0 2 (AddCmd 0 1
       ((\<lambda>a. newCmd [])(1 := newCmd ''status'', 2 := newCmd ''stop'', 3 := newCmd ''start''))))"

text \<open>Root 0 with the single command "status".\<close>

definition statusTree :: heap where
  "statusTree = AddCmd 0 1 ((\<lambda>a. newCmd [])(1 := newCmd ''status''))"

definition completer :: iCompleter where
  "completer = \<lparr>cmd = Some 0, disabled = None\<rparr>"

text \<open>
  A library for lines of one unquoted ASCII word: the tokenizer returns the line as its
  only word, and the conversions map bytes to code points and back.
\<close>

definition wordLib :: lib where
  "wordLib = \<lparr>shlex_Split = (\<lambda>s. Some [s]), strings_Fields = (\<lambda>s. [s]),
     string_of_runes = map (\<lambda>r. char_of (unat r)), runes_of_string = map of_char\<rparr>"

text \<open>Two unattached nodes named "b" and "a", and an empty root 0.\<close>

definition pairNodes :: heap where
  "pairNodes = (\<lambda>a. newCmd [])(1 := newCmd ''b'', 2 := newCmd ''a'')"

text \<open>A node whose completer offers two values.\<close>

definition colour :: Cmd where
  "colour = (newCmd ''--colour'')\<lparr>Completer := Some (\<lambda>args. [''red'', ''green''])\<rparr>"

section \<open>Evaluation of the example trees\<close>

lemmas tree_defs = AddCmd_def AddOptionalCmd_def store_def newCmd_def

lemmas find_defs =
  FindCmd_def optionalWalk_def findChildCmd_def findOptionalChildCmd_def lookup_def

section \<open>Resolution\<close>

lemma findLoop_none:
  "findLoop h c cmd0 rem args = (c', cmd', rem') \<Longrightarrow> cmd' = None
     \<Longrightarrow> rem' = rem \<and> c' = c \<and> cmd0 = None"
  by (induction args arbitrary: c cmd0 rem) (auto split: option.splits)

lemma findLoop_unmatched:
  "\<forall>w \<in> set ws. findChildCmd h c w = None \<Longrightarrow> findLoop h c cmd0 rem ws = (c, cmd0, rem)"
  by (induction ws) auto

lemma optionalWalk_Nil: "optionalWalk h c [] = []"
  by (simp add: optionalWalk_def)

lemma FindCmd_none:
  "fst (FindCmd h c args) = None \<Longrightarrow> FindCmd h c args = (None, [], [])"
  using findLoop_none [of h c None "[]" args]
  by (auto simp: FindCmd_def optionalWalk_Nil split: prod.splits)

text \<open>
  C1. The root has the single required child "user" with alias "u"; "user" has no
  required child and the single optional child "--verbose", which has no alias. Then
  FindCmd on u, --verbose, extra returns the "user" node, the optional map that sends
  the "--verbose" node to "extra", and the remaining words --verbose, extra.
\<close>

theorem FindCmd_user_verbose:
  assumes "entries (children root) = [(''user'', u)]"
    and "Aliases (h u) = [''u'']"
    and "entries (children (h u)) = []"
    and "entries (optionalChildren (h u)) = [(''--verbose'', v)]"
    and "Aliases (h v) = []"
  shows "FindCmd h root [''u'', ''--verbose'', ''extra'']
           = (Some u, [(v, ''extra'')], [''--verbose'', ''extra''])"
  using assms by (simp add: find_defs)

theorem FindCmd_user_verbose_witness:
  "FindCmd userTree (userTree 0) [''u'', ''--verbose'', ''extra'']
     = (Some 1, [(2, ''extra'')], [''--verbose'', ''extra''])"
  by (rule FindCmd_user_verbose) (simp_all add: userTree_def tree_defs)

text \<open>
  C2, as stated, fails: on the root whose only child is the option "--v", the word
  "--v" matches no required child and names a root option, the optional walk of the
  word against the root would capture it, and FindCmd returns the empty map.
\<close>

theorem FindCmd_root_option_not_captured:
  "findChildCmd optionTree (optionTree 0) ''--v'' = None
   \<and> findOptionalChildCmd optionTree (optionTree 0) ''--v'' = Some 1
   \<and> optionalWalk optionTree (optionTree 0) [''--v''] = [(1, [])]
   \<and> fst (snd (FindCmd optionTree (optionTree 0) [''--v''])) = []
   \<and> fst (snd (FindCmd optionTree (optionTree 0) [''--v'']))
       \<noteq> optionalWalk optionTree (optionTree 0) [''--v'']"
  by (simp add: optionTree_def tree_defs find_defs)

text \<open>
  C2, amended. When no word matches a required child of the node, by name or by alias,
  FindCmd returns no command, the empty optional map and no remaining words: the
  optional walk runs over the remaining words, of which there are none, so no option of
  the root is captured.
\<close>

theorem FindCmd_unmatched:
  "\<forall>w \<in> set ws. findChildCmd h c w = None \<Longrightarrow> FindCmd h c ws = (None, [], [])"
  by (simp add: FindCmd_def findLoop_unmatched optionalWalk_Nil)

theorem FindCmd_unmatched_witness:
  "FindCmd optionTree (optionTree 0) [''--v'', ''x''] = (None, [], [])"
  by (rule FindCmd_unmatched) (simp add: optionTree_def tree_defs find_defs)

text \<open>
  C5, as stated, fails: the root has the child "a" with alias "b" and also a child named
  "b"; the word "b" resolves to the child named "b", the word "a" to the child "a".
\<close>

theorem FindCmd_alias_shadowed:
  "lookup (children (aliasTree 0)) ''a'' = Some 1 \<and> Aliases (aliasTree 1) = [''b'']
   \<and> FindCmd aliasTree (aliasTree 0) [''b'', ''x''] = (Some 2, [], [''x''])
   \<and> FindCmd aliasTree (aliasTree 0) [''a'', ''x''] = (Some 1, [], [''x''])
   \<and> FindCmd aliasTree (aliasTree 0) [''b'', ''x'']
       \<noteq> FindCmd aliasTree (aliasTree 0) [''a'', ''x'']"
  by (simp add: aliasTree_def tree_defs find_defs)

lemma findAlias_unique:
  "(k, q) \<in> set m \<Longrightarrow> hasAlias b (Aliases (h q)) \<Longrightarrow>
   \<forall>(k', q') \<in> set m. hasAlias b (Aliases (h q')) \<longrightarrow> q' = q \<Longrightarrow> findAlias h m b = Some q"
  by (induction m) auto

text \<open>
  C5, amended. A node is a required child under the name a and has b among its aliases;
  no required child is named b, and no other required child has the alias b. Then for
  every word x FindCmd on b, x returns the same command, optional map and remaining
  words as FindCmd on a, x.
\<close>

theorem FindCmd_alias_as_name:
  assumes "lookup (children c) a = Some q"
    and "hasAlias b (Aliases (h q))"
    and "lookup (children c) b = None"
    and "\<forall>(k, q') \<in> set (entries (children c)). hasAlias b (Aliases (h q')) \<longrightarrow> q' = q"
  shows "FindCmd h c [b, x] = FindCmd h c [a, x]"
proof -
  from assms(1) have "(a, q) \<in> set (entries (children c))"
    by (simp add: lookup_def map_of_SomeD)
  then have "findAlias h (entries (children c)) b = Some q"
    using assms(2,4) by (rule findAlias_unique)
  then have "findChildCmd h c b = Some q"
    using assms(3) by (simp add: findChildCmd_def)
  moreover have "findChildCmd h c a = Some q"
    using assms(1) by (simp add: findChildCmd_def)
  ultimately show ?thesis by (simp add: FindCmd_def)
qed

theorem FindCmd_alias_as_name_witness:
  "FindCmd userTree (userTree 0) [''u'', ''--verbose''] = (Some 1, [(2, [])], [''--verbose''])
   \<and> FindCmd userTree (userTree 0) [''user'', ''--verbose'']
       = (Some 1, [(2, [])], [''--verbose''])"
proof -
  have "FindCmd userTree (userTree 0) [''u'', ''--verbose'']
      = FindCmd userTree (userTree 0) [''user'', ''--verbose'']"
    by (rule FindCmd_alias_as_name [where q = 1]) (simp_all add: userTree_def tree_defs find_defs)
  moreover have "FindCmd userTree (userTree 0) [''user'', ''--verbose'']
      = (Some 1, [(2, [])], [''--verbose''])"
    by (simp add: userTree_def tree_defs find_defs)
  ultimately show ?thesis by simp
qed

section \<open>Validation\<close>

lemma validLoop_mem: "validLoop v xs acc = (acc \<or> v \<in> set xs)"
  by (induction xs arbitrary: acc) auto

text \<open>
  C4. Without a plain completer IsValid returns the error "Completer must be specified
  for cmd"; with a plain completer f it returns no error, and the boolean is true
  exactly when the value is among the values of f called with no arguments.
\<close>

theorem IsValid_spec:
  "(Completer c = None
      \<longrightarrow> IsValid c v = (False, Some (New ''Completer must be specified for cmd'')))
   \<and> (\<forall>f. Completer c = Some f \<longrightarrow> IsValid c v = (v \<in> set (f []), None))"
  by (simp add: IsValid_def validLoop_mem)

theorem IsValid_spec_witness:
  "Completer colour \<noteq> None \<and> IsValid colour ''red'' = (True, None)
   \<and> IsValid colour ''blue'' = (False, None)
   \<and> Completer (newCmd ''--v'') = None
   \<and> IsValid (newCmd ''--v'') ''red''
       = (False, Some (New ''Completer must be specified for cmd''))"
  using IsValid_spec [of colour "''red''"] IsValid_spec [of colour "''blue''"]
    IsValid_spec [of "newCmd ''--v''" "''red''"]
  by (simp add: colour_def newCmd_def)

section \<open>Deleting a child\<close>

lemma delete_absent: "lookup m n = None \<Longrightarrow> delete n m = m"
  by (cases m) (simp_all add: delete_def lookup_def map_of_eq_None_iff)

text \<open>
  C9. DeleteCmd on the node c with the name n removes the entry of the required children
  with the key n and no other: every required child under another key stays, whatever
  its aliases; the other fields of c, its optional children among them, and every other
  node are unchanged; and when no required child has the key n, the store is unchanged.
\<close>

theorem DeleteCmd_frame:
  "lookup (children (DeleteCmd c n h c)) = (lookup (children (h c)))(n := None)
   \<and> (\<forall>k q. k \<noteq> n \<and> lookup (children (h c)) k = Some q
        \<longrightarrow> lookup (children (DeleteCmd c n h c)) k = Some q)
   \<and> DeleteCmd c n h c = (h c)\<lparr>children := children (DeleteCmd c n h c)\<rparr>
   \<and> (\<forall>d. d \<noteq> c \<longrightarrow> DeleteCmd c n h d = h d)
   \<and> (lookup (children (h c)) n = None \<longrightarrow> DeleteCmd c n h = h)"
proof -
  have "lookup (delete n m) = (lookup m)(n := None)" for m :: "ptr gomap"
    by (cases m) (simp_all add: delete_def lookup_def [abs_def] delete_conv')
  then show ?thesis
    by (auto simp: DeleteCmd_def delete_absent)
qed

theorem DeleteCmd_frame_witness:
  "lookup (children (userTree 0)) ''u'' = None
   \<and> findChildCmd userTree (userTree 0) ''u'' = Some 1
   \<and> DeleteCmd 0 ''u'' userTree = userTree
   \<and> lookup (children (userTree 0)) ''user'' = Some 1
   \<and> lookup (children (DeleteCmd 0 ''user'' userTree 0)) ''user'' = None
   \<and> DeleteCmd 0 ''user'' userTree 1 = userTree 1"
  using DeleteCmd_frame [of 0 "''u''" userTree] DeleteCmd_frame [of 0 "''user''" userTree]
  by (simp add: userTree_def tree_defs find_defs)

section \<open>Completion after resolution\<close>

lemma rangeOpts_found: "rangeOpts h prefix (Some m) vm s \<noteq> Inl e"
  by (induction vm arbitrary: s) (auto split: option.splits list.splits if_splits)

text \<open>
  C10. When the optional map that FindCmd returns is not empty, the command it returns
  is not nil; and getWords, whose loop over that map reads the optional children of the
  returned command, returns a word list and does not fail on a nil command, for every
  completer with a root.
\<close>

theorem FindCmd_options_need_command:
  "(fst (snd (FindCmd h c args)) \<noteq> [] \<longrightarrow> fst (FindCmd h c args) \<noteq> None)
   \<and> (iCompleter.cmd ic = Some root \<longrightarrow> (\<exists>s. getWords h ic prefix w = Inr s))"
proof
  show "fst (snd (FindCmd h c args)) \<noteq> [] \<longrightarrow> fst (FindCmd h c args) \<noteq> None"
    using FindCmd_none [of h c args] by (cases "fst (FindCmd h c args)") auto
next
  show "iCompleter.cmd ic = Some root \<longrightarrow> (\<exists>s. getWords h ic prefix w = Inr s)"
  proof
    assume r: "iCompleter.cmd ic = Some root"
    obtain found vm args' where f: "FindCmd h (h root) w = (found, vm, args')"
      by (cases "FindCmd h (h root) w") auto
    show "\<exists>s. getWords h ic prefix w = Inr s"
    proof (cases found)
      case None
      with f FindCmd_none [of h "h root" w] have "vm = []" by simp
      with r f None show ?thesis
        by (simp add: getWords_def split: option.splits)
    next
      case (Some m)
      then show ?thesis using r f rangeOpts_found [of h prefix m vm "[]"]
        by (auto simp: getWords_def split: option.splits sum.splits exit.splits)
    qed
  qed
qed

theorem FindCmd_options_need_command_witness:
  "fst (snd (FindCmd userTree (userTree 0) [''u'', ''--verbose''])) \<noteq> []
   \<and> fst (FindCmd userTree (userTree 0) [''u'', ''--verbose'']) \<noteq> None
   \<and> iCompleter.cmd completer = Some 0
   \<and> (\<exists>s. getWords userTree completer [] [''u'', ''--verbose''] = Inr s)"
  using FindCmd_options_need_command [of userTree "userTree 0" "[''u'', ''--verbose'']"
      completer 0 "[]" "[''u'', ''--verbose'']"]
  by (simp add: userTree_def tree_defs find_defs completer_def)

text \<open>
  C3. The option "--role" of "user" has no completer and the two required children
  "admin" and "guest"; it is captured with the value "x", which is not valid. getWords
  returns one name only, the name of the child that the loop over the children visits
  first, in either visiting order.
\<close>

theorem getWords_first_child_only:
  "map fst (entries (children (roleTree 2))) = [''admin'', ''guest'']
   \<and> getWords roleTree completer [] [''user'', ''--role'', ''x''] = Inr [''admin'']
   \<and> map fst (entries (children (roleTree' 2))) = [''guest'', ''admin'']
   \<and> getWords roleTree' completer [] [''user'', ''--role'', ''x''] = Inr [''guest'']"
  by (simp add: roleTree_def roleTree'_def roleNodes_def tree_defs find_defs completer_def
      getWords_def IsValid_def)

section \<open>Sorted listings\<close>

lemma keyed_names:
  "keyed h m \<Longrightarrow> map (\<lambda>q. Name (h q)) (map snd (entries m)) = map fst (entries m)"
  by (auto simp: keyed_def list_all_iff)

lemma keyed_lookup:
  assumes "keyed h m" and "q \<in> snd ` set (entries m)"
  shows "lookup m (Name (h q)) = Some q"
proof -
  from assms(2) obtain k where kq: "(k, q) \<in> set (entries m)" by auto
  with assms(1) have "Name (h q) = k" by (auto simp: keyed_def list_all_iff)
  with kq assms(1) show ?thesis by (simp add: keyed_def lookup_def)
qed

text \<open>
  The nodes of a keyed map, sorted by name, have strictly increasing names and are the
  values of the map at its keys in increasing order.
\<close>

lemma keyed_sorted:
  assumes "keyed h m"
  defines "L \<equiv> sort_key (\<lambda>q. Name (h q)) (map snd (entries m))"
  shows "sorted_wrt (<) (map (\<lambda>q. Name (h q)) L)"
    and "L = map (the \<circ> lookup m) (sorted_list_of_set (dom (lookup m)))"
proof -
  let ?N = "\<lambda>q. Name (h q)"
  have "distinct (map fst (entries m))" using assms(1) by (simp add: keyed_def)
  then have d: "distinct (map ?N (map snd (entries m)))"
    by (simp only: keyed_names [OF assms(1)])
  then have "distinct (map snd (entries m))" and inj: "inj_on ?N (set (map snd (entries m)))"
    by (simp_all only: distinct_map)
  then have dL: "distinct (map ?N L)" by (simp add: L_def distinct_map)
  have sL: "sorted (map ?N L)" unfolding L_def by (rule sorted_sort_key)
  from sL dL show "sorted_wrt (<) (map ?N L)" by (simp add: strict_sorted_iff)
  have "set (map ?N L) = fst ` set (entries m)"
    using keyed_names [OF assms(1)] by (metis L_def list.set_map set_sort)
  also have "\<dots> = dom (lookup m)" by (simp add: lookup_def [abs_def] dom_map_of_conv_image_fst)
  finally have "set (map ?N L) = set (sorted_list_of_set (dom (lookup m)))"
    by (simp add: lookup_def [abs_def] finite_dom_map_of)
  with sL dL have eq: "map ?N L = sorted_list_of_set (dom (lookup m))"
    by (intro sorted_distinct_set_unique) simp_all
  have "(the \<circ> lookup m) (?N q) = q" if "q \<in> set L" for q
    using keyed_lookup [OF assms(1), of q] that by (simp add: L_def)
  then have "map (the \<circ> lookup m) (map ?N L) = L"
    unfolding map_map by (intro map_idI) simp
  with eq show "L = map (the \<circ> lookup m) (sorted_list_of_set (dom (lookup m)))" by simp
qed

lemma Name_perform: "Name (perform c x h q) = Name (h q)"
  by (cases x) (simp_all add: AddCmd_def AddOptionalCmd_def DeleteCmd_def)

lemma set_update_cases:
  "e \<in> set (AList.update k v al) \<Longrightarrow> e = (k, v) \<or> e \<in> set al"
  by (induction al) (auto split: if_splits)

lemma set_delete_subset: "e \<in> set (AList.delete k al) \<Longrightarrow> e \<in> set al"
  by (induction al) (auto split: if_splits)

lemma keyed_store: "keyed h m \<Longrightarrow> Name (h q) = k \<Longrightarrow> keyed h (store k q m)"
  by (auto simp: keyed_def store_def distinct_update list_all_iff dest!: set_update_cases)

lemma keyed_delete: "keyed h m \<Longrightarrow> keyed h (delete n m)"
  by (cases m)
    (auto simp: keyed_def delete_def distinct_delete list_all_iff dest!: set_delete_subset)

lemma keyed_cong: "(\<And>q. Name (h' q) = Name (h q)) \<Longrightarrow> keyed h' m = keyed h m"
  by (simp add: keyed_def)

lemma keyed_perform:
  assumes "keyed h (children (h c))" and "keyed h (optionalChildren (h c))"
  shows "keyed (perform c x h) (children (perform c x h c))
       \<and> keyed (perform c x h) (optionalChildren (perform c x h c))"
proof -
  have n: "keyed (perform c x h) m = keyed h m" for m
    by (rule keyed_cong) (rule Name_perform)
  show ?thesis unfolding n using assms
    by (cases x)
      (simp_all add: AddCmd_def AddOptionalCmd_def DeleteCmd_def keyed_store keyed_delete)
qed

lemma keyed_performAll:
  "keyed h (children (h c)) \<Longrightarrow> keyed h (optionalChildren (h c)) \<Longrightarrow>
   keyed (performAll c xs h) (children (performAll c xs h c))
     \<and> keyed (performAll c xs h) (optionalChildren (performAll c xs h c))"
  unfolding performAll_def
proof (induction xs arbitrary: h)
  case Nil
  then show ?case by simp
next
  case (Cons x xs)
  from keyed_perform [OF Cons.prems, of x] show ?case
    by (simp add: Cons.IH)
qed

text \<open>A node whose child maps are nil, as every new node is, has keyed maps.\<close>

lemma keyed_nil: "keyed h None"
  by (simp add: keyed_def)

text \<open>
  C6. The child maps of the node c are keyed by name, as they are on a new node. After
  any sequence of AddCmd, AddOptionalCmd and DeleteCmd on c, Children lists the nodes of
  the required map with strictly increasing names, and the list is the map's values at
  its keys in increasing order, so it depends on the map and not on the order of the
  insertions; the same holds for OptionalChildren and the optional map.
\<close>

theorem Children_sorted_by_name:
  assumes "keyed h (children (h c))" and "keyed h (optionalChildren (h c))"
  shows "let h' = performAll c xs h in
     sorted_wrt (<) (map (\<lambda>q. Name (h' q)) (Children h' (h' c)))
     \<and> Children h' (h' c)
         = map (the \<circ> lookup (children (h' c)))
             (sorted_list_of_set (dom (lookup (children (h' c)))))
     \<and> sorted_wrt (<) (map (\<lambda>q. Name (h' q)) (OptionalChildren h' (h' c)))
     \<and> OptionalChildren h' (h' c)
         = map (the \<circ> lookup (optionalChildren (h' c)))
             (sorted_list_of_set (dom (lookup (optionalChildren (h' c)))))"
proof -
  define h' where "h' = performAll c xs h"
  have k: "keyed h' (children (h' c))" "keyed h' (optionalChildren (h' c))"
    using keyed_performAll [OF assms, of xs] by (simp_all add: h'_def)
  have "sorted_wrt (<) (map (\<lambda>q. Name (h' q)) (Children h' (h' c)))"
    unfolding Children_def by (rule keyed_sorted(1) [OF k(1)])
  moreover have "Children h' (h' c)
      = map (the \<circ> lookup (children (h' c))) (sorted_list_of_set (dom (lookup (children (h' c)))))"
    unfolding Children_def by (rule keyed_sorted(2) [OF k(1)])
  moreover have "sorted_wrt (<) (map (\<lambda>q. Name (h' q)) (OptionalChildren h' (h' c)))"
    unfolding OptionalChildren_def by (rule keyed_sorted(1) [OF k(2)])
  moreover have "OptionalChildren h' (h' c)
      = map (the \<circ> lookup (optionalChildren (h' c)))
          (sorted_list_of_set (dom (lookup (optionalChildren (h' c)))))"
    unfolding OptionalChildren_def by (rule keyed_sorted(2) [OF k(2)])
  ultimately show ?thesis unfolding h'_def [symmetric] Let_def by blast
qed

lemma Children_pairNodes:
  "Children (performAll 0 [Add 1, Add 2, AddOptional 1, Delete ''b'', Add 1] pairNodes)
     (performAll 0 [Add 1, Add 2, AddOptional 1, Delete ''b'', Add 1] pairNodes 0) = [2, 1]"
  by (simp add: performAll_def pairNodes_def tree_defs Children_def DeleteCmd_def delete_def)

lemma OptionalChildren_pairNodes:
  "OptionalChildren (performAll 0 [Add 1, Add 2, AddOptional 1, Delete ''b'', Add 1] pairNodes)
     (performAll 0 [Add 1, Add 2, AddOptional 1, Delete ''b'', Add 1] pairNodes 0) = [1]"
  by (simp add: performAll_def pairNodes_def tree_defs OptionalChildren_def DeleteCmd_def
      delete_def)

theorem Children_sorted_by_name_witness:
  "keyed pairNodes (children (pairNodes 0)) \<and> keyed pairNodes (optionalChildren (pairNodes 0))
   \<and> (let h' = performAll 0 [Add 1, Add 2, AddOptional 1, Delete ''b'', Add 1] pairNodes in
       Children h' (h' 0) = [2, 1]
       \<and> sorted_wrt (<) (map (\<lambda>q. Name (h' q)) (Children h' (h' 0)))
       \<and> OptionalChildren h' (h' 0) = [1])"
proof -
  have k: "keyed pairNodes (children (pairNodes 0))"
    "keyed pairNodes (optionalChildren (pairNodes 0))"
    by (simp_all add: keyed_def pairNodes_def newCmd_def)
  let ?h = "performAll 0 [Add 1, Add 2, AddOptional 1, Delete ''b'', Add 1] pairNodes"
  have "sorted_wrt (<) (map (\<lambda>q. Name (?h q)) (Children ?h (?h 0)))"
    using Children_sorted_by_name [OF k, of "[Add 1, Add 2, AddOptional 1, Delete ''b'', Add 1]"]
    unfolding Let_def by (rule conjunct1)
  with k Children_pairNodes OptionalChildren_pairNodes show ?thesis
    unfolding Let_def by (intro conjI)
qed

section \<open>Help text\<close>




section \<open>The completion entry point\<close>

lemma suggestLoop_filter:
  "suggestLoop l prefix ws acc
     = acc @ map (\<lambda>w. runes_of_string l (drop (length prefix) w))
               (filter (\<lambda>w. take (length prefix) w = prefix) ws)"
proof (induction ws arbitrary: acc)
  case Nil
  then show ?case by simp
next
  case (Cons w ws)
  have "length prefix \<le> length w" if "take (length prefix) w = prefix"
  proof -
    have "length (take (length prefix) w) = length prefix" by (simp only: that)
    then show ?thesis by simp
  qed
  then have "HasPrefix w prefix \<longleftrightarrow> take (length prefix) w = prefix"
    by (auto simp: HasPrefix_def)
  then show ?case by (simp add: Cons.IH TrimPrefix_def)
qed

lemma collapse_spec:
  assumes "convertible l" and "survivors = filter (\<lambda>w. take (length prefix) w = prefix) cWords"
  shows "collapse l prefix (map (\<lambda>w. runes_of_string l (drop (length prefix) w)) survivors)
     = (if length survivors = 1 \<and> prefix \<noteq> [] \<and> drop (length prefix) (hd survivors) = []
        then [runes_of_string l '' '']
        else map (\<lambda>w. runes_of_string l (drop (length prefix) w)) survivors)"
proof (cases survivors)
  case Nil
  then show ?thesis by (simp add: collapse_def)
next
  case (Cons w ws)
  then show ?thesis using assms(1) by (simp add: collapse_def convertible_def)
qed

text \<open>
  C8. Completion is not disabled, the line splits into \<open>words\<close>, \<open>prefix\<close> is the word in
  progress (the last word when the rune before the cursor is not a space, else empty) and
  getWords returns the candidates \<open>cWords\<close>. Then Do returns the candidates that start
  with the prefix, each with the prefix trimmed, and the length of the prefix; when one
  candidate survives, the prefix is not empty and the candidate trims to the empty
  string, Do returns the single suggestion " " instead.
\<close>

theorem Do_filters_by_prefix:
  assumes "\<not> (case disabled ic of Some d \<Rightarrow> d () | None \<Rightarrow> False)"
    and "words = (case shlex_Split l (string_of_runes l line) of
                    Some w \<Rightarrow> w | None \<Rightarrow> strings_Fields l (string_of_runes l line))"
    and "inProgress words line pos = Inr typing"
    and "prefix = (if typing then last words else [])"
    and "getWords h ic prefix (if typing then butlast words else words) = Inr cWords"
    and "survivors = filter (\<lambda>w. take (length prefix) w = prefix) cWords"
    and "convertible l"
  shows "Do l h ic line pos
     = Inr (if length survivors = 1 \<and> prefix \<noteq> [] \<and> drop (length prefix) (hd survivors) = []
            then [runes_of_string l '' '']
            else map (\<lambda>w. runes_of_string l (drop (length prefix) w)) survivors,
            int (length prefix))"
proof -
  have "Do l h ic line pos
      = Inr (collapse l prefix (suggestLoop l prefix cWords []), int (length prefix))"
    using assms(1,3,5) unfolding Do_def assms(2) [symmetric] Let_def
    by (cases typing) (simp_all add: assms(4))
  then show ?thesis
    by (simp add: suggestLoop_filter assms(6) [symmetric] collapse_spec [OF assms(7,6)])
qed

lemma convertible_wordLib: "convertible wordLib"
  by (simp add: convertible_def wordLib_def)

lemma string_of_runes_st: "string_of_runes wordLib [115, 116] = ''st''"
  by (simp add: wordLib_def char_of_def bit_Suc_0_iff)

lemma getWords_serviceTree:
  "getWords serviceTree completer ''st'' [] = Inr [''status'', ''stop'', ''start'']"
  by (simp add: serviceTree_def tree_defs find_defs completer_def getWords_def)

text \<open>The line "st" with the cursor at its end, on the commands status, stop, start.\<close>

theorem Do_filters_by_prefix_witness:
  "Do wordLib serviceTree completer [115, 116] 2
     = Inr (map (runes_of_string wordLib) [''atus'', ''op'', ''art''], 2)"
proof -
  have "Do wordLib serviceTree completer [115, 116] 2
     = Inr (if length [''status'', ''stop'', ''start''] = 1 \<and> ''st'' \<noteq> []
               \<and> drop (length ''st'') (hd [''status'', ''stop'', ''start'']) = []
            then [runes_of_string wordLib '' '']
            else map (\<lambda>w. runes_of_string wordLib (drop (length ''st'') w))
                   [''status'', ''stop'', ''start''],
            int (length ''st''))"
  proof (rule Do_filters_by_prefix [where words = "[''st'']" and typing = True])
    show "\<not> (case disabled completer of Some d \<Rightarrow> d () | None \<Rightarrow> False)"
      by (simp add: completer_def)
    show "[''st''] = (case shlex_Split wordLib (string_of_runes wordLib [115, 116]) of
        Some w \<Rightarrow> w | None \<Rightarrow> strings_Fields wordLib (string_of_runes wordLib [115, 116]))"
      unfolding string_of_runes_st by (simp add: wordLib_def)
    show "inProgress [''st''] [115, 116] 2 = Inr True" by (simp add: inProgress_def)
    show "getWords serviceTree completer ''st'' (if True then butlast [''st''] else [''st''])
        = Inr [''status'', ''stop'', ''start'']"
      using getWords_serviceTree by simp
    show "convertible wordLib" by (rule convertible_wordLib)
  qed simp_all
  then show ?thesis by simp
qed

text \<open>The line "status" with the cursor at its end, on the single command status.\<close>

lemma Do_status_collapses:
  "Do wordLib statusTree completer [115, 116, 97, 116, 117, 115] 6 = Inr ([[32]], 6)"
  by (simp add: Do_def Let_def completer_def wordLib_def char_of_def bit_Suc_0_iff inProgress_def
      getWords_def statusTree_def tree_defs find_defs HasPrefix_def TrimPrefix_def collapse_def)

end
